theory Spec2Isabelle
  imports Main "HOL-Library.AList" "HOL-Library.Char_ord" "HOL-Library.List_Lexorder"
begin

section \<open>The HEIC to JPG converter and renamer (convert\_heic\_to\_jpg.py)\<close>

text \<open>
  The script walks the class folders \<open>Good\<close>, \<open>Bad\<close> and \<open>Ugly\<close> of a dataset directory.
  \<open>convert_and_rename_heic_to_jpg\<close> turns every HEIC file into \<open><label><n>.jpg\<close> and deletes
  the original; \<open>rename_jpg_files\<close> renames every other JPG file into the same scheme.

  Modelling decisions.
  \<^item> A class folder is an association list from file names to file contents, in the order
    the operating system lists it; the dataset directory is an association list from folder
    names to folders. Entries are regular files, and a name is looked up exactly.
  \<^item> File names are strings of 8-bit characters, and lower case is taken on the ASCII
    letters. The flavour of \<open>pathlib\<close> is a parameter: on POSIX \<open>Path.glob\<close> matches
    case-sensitively and paths sort by their names; on Windows the pattern is compiled with
    \<open>re.IGNORECASE\<close> and paths sort by their lower-case names. Looking up a name is exact
    under both flavours, which is faithful to a Windows folder for names taken from its
    listing.
  \<^item> The image library is a parameter: three partial functions for \<open>Image.open\<close>,
    \<open>Image.convert\<close> and the JPEG encoder behind \<open>Image.save\<close>; \<open>None\<close> is a raised
    exception. A save whose encoder fails leaves no file behind.
  \<^item> \<open>Path.unlink\<close> can fail on a file that exists (permissions, locks): the files the
    process may delete are a parameter. \<open>Path.rename\<close> fails on a missing source only.
  \<^item> Every exception of the source is a value of type \<open>error\<close>; the \<open>try\<close> blocks are case
    distinctions on it. An exception that no handler catches ends the convert pass: the model
    returns it beside the state reached.
  \<^item> What the script prints, and the calls it makes on the file system, are collected in
    order as a list of events. The separator lines and the text of an exception are left
    out. In the convert pass the two messages that hold the name of a HEIC file fail when
    the output stream cannot encode that name; which names it can encode is a parameter.
    The other messages are taken to print.
\<close>

subsection \<open>Strings: digits, lower case, decimal numbers\<close>

definition is_digit :: "char \<Rightarrow> bool" where
  "is_digit c = (c \<in> set ''0123456789'')"

text \<open>\<open>str.lower\<close> on ASCII letters.\<close>

definition to_lower :: "char \<Rightarrow> char" where
  "to_lower c =
     (case map_of (zip ''ABCDEFGHIJKLMNOPQRSTUVWXYZ'' ''abcdefghijklmnopqrstuvwxyz'') c of
        Some l \<Rightarrow> l
      | None \<Rightarrow> c)"

definition lower :: "string \<Rightarrow> string" where
  "lower s = map to_lower s"

text \<open>\<open>str(n)\<close> of a non-negative integer, as the f-strings format the sequence number.\<close>

definition digit_char :: "nat \<Rightarrow> char" where
  "digit_char d = ''0123456789'' ! d"

fun str_nat :: "nat \<Rightarrow> string" where
  "str_nat n = (if n < 10 then [digit_char n] else str_nat (n div 10) @ [digit_char (n mod 10)])"

declare str_nat.simps [simp del]

text \<open>\<open>int(s)\<close> on a string of decimal digits.\<close>

definition digit_val :: "char \<Rightarrow> nat" where
  "digit_val c = (case map_of (zip ''0123456789'' [0, 1, 2, 3, 4, 5, 6, 7, 8, 9]) c of
                    Some d \<Rightarrow> d
                  | None \<Rightarrow> 0)"

definition int_of_digits :: "string \<Rightarrow> nat" where
  "int_of_digits s = foldl (\<lambda>a c. 10 * a + digit_val c) 0 s"

text \<open>\<open>re.search(r'\d+', name).group()\<close>: the first maximal run of digits, empty when the
  search finds nothing.\<close>

definition first_digits :: "string \<Rightarrow> string" where
  "first_digits name = takeWhile is_digit (dropWhile (\<lambda>c. \<not> is_digit c) name)"

text \<open>The target name \<open>f"{class_name.lower()}{n}.jpg"\<close>.\<close>

definition target_name :: "string \<Rightarrow> nat \<Rightarrow> string" where
  "target_name cls n = lower cls @ str_nat n @ ''.jpg''"

text \<open>\<open>re.compile(rf"^{class_name.lower()}\d+\.jpg$", re.IGNORECASE).match(name)\<close>. The digits
  are matched greedily and the next character must be the dot, so the digit run is the longest
  one; \<open>$\<close> also matches before a final newline.\<close>

definition canonical :: "string \<Rightarrow> string \<Rightarrow> bool" where
  "canonical cls name =
     (let p = lower cls;
          n = lower name;
          rest = drop (length p) n;
          ext = dropWhile is_digit rest
      in take (length p) n = p \<and> takeWhile is_digit rest \<noteq> [] \<and>
         (ext = ''.jpg'' \<or> ext = ''.jpg'' @ [CHR 0x0A]))"

subsection \<open>The file system\<close>

type_synonym bytes = string
type_synonym directory = "(string \<times> bytes) list"
type_synonym filesystem = "(string \<times> directory) list"

datatype error =
  FileNotFoundError | PermissionError | DecodeError | ConvertError | EncodeError |
  UnicodeEncodeError

text \<open>The environment of a run: the flavour of \<open>pathlib\<close> (\<open>ci_glob\<close> is the Windows
  flavour), the files the process may delete, and the file names the output stream can
  encode.\<close>

record env =
  ci_glob :: bool
  can_unlink :: "string \<Rightarrow> bool"
  printable :: "string \<Rightarrow> bool"

definition names :: "directory \<Rightarrow> string list" where
  "names d = map fst d"

definition exists_file :: "directory \<Rightarrow> string \<Rightarrow> bool" where
  "exists_file d name = (map_of d name \<noteq> None)"

text \<open>A glob pattern \<open>pre*suf\<close> with one star: the name starts with \<open>pre\<close>, ends with
  \<open>suf\<close>, and the two do not overlap. \<open>pathlib\<close> matches hidden files as well.\<close>

definition fnmatch_star :: "string \<Rightarrow> string \<Rightarrow> string \<Rightarrow> bool" where
  "fnmatch_star pre suf name =
     (length pre + length suf \<le> length name \<and> take (length pre) name = pre \<and>
      drop (length name - length suf) name = suf)"

text \<open>The match of the flavour: the Windows flavour ignores case.\<close>

definition path_match :: "env \<Rightarrow> string \<Rightarrow> string \<Rightarrow> string \<Rightarrow> bool" where
  "path_match e pre suf name =
     (if ci_glob e then fnmatch_star (lower pre) (lower suf) (lower name)
      else fnmatch_star pre suf name)"

definition glob :: "env \<Rightarrow> string \<Rightarrow> string \<Rightarrow> directory \<Rightarrow> string list" where
  "glob e pre suf d = filter (path_match e pre suf) (names d)"

text \<open>\<open>sorted\<close> on paths of one folder: Windows paths compare by their lower-case form. The
  sort is stable, as Python's is.\<close>

definition sorted_paths :: "env \<Rightarrow> string list \<Rightarrow> string list" where
  "sorted_paths e xs = (if ci_glob e then sort_key lower xs else sort xs)"

definition write_file :: "string \<Rightarrow> bytes \<Rightarrow> directory \<Rightarrow> directory" where
  "write_file name c d = AList.update name c d"

text \<open>\<open>Path.unlink\<close>: the file must exist, and the process must be allowed to delete it.\<close>

definition unlink :: "env \<Rightarrow> string \<Rightarrow> directory \<Rightarrow> error + directory" where
  "unlink e name d =
     (if \<not> exists_file d name then Inl FileNotFoundError
      else if \<not> can_unlink e name then Inl PermissionError
      else Inr (AList.delete name d))"

text \<open>\<open>Path.rename\<close> on POSIX: the source must exist; an existing target is replaced.\<close>

definition rename_file :: "string \<Rightarrow> string \<Rightarrow> directory \<Rightarrow> error + directory" where
  "rename_file src dst d =
     (case map_of d src of
        None \<Rightarrow> Inl FileNotFoundError
      | Some c \<Rightarrow> Inr (write_file dst c (AList.delete src d)))"

subsection \<open>What the script prints and calls\<close>

datatype event =
    FolderNotFound string
  | ProcessingFolder string
  | AlreadyRenamed nat
  | NeedToRename nat
  | SkippingMoved string
  | SkippingTargetExists string
  | Renaming string string
  | ErrorRenaming string
  | FinalCount nat
  | NoHeicFound string
  | FoundHeic nat
  | Converting string string
  | ErrorConverting string
  | Summary int int int
  | FsDirExists string bool
  | FsExists string bool
  | FsRename string string
  | FsOpen string
  | FsSave string
  | FsUnlink string

text \<open>\<open>max\<close> of a list; the source calls it on non-empty lists only.\<close>

fun max_list :: "nat list \<Rightarrow> nat" where
  "max_list [] = 0"
| "max_list (x # xs) = fold max xs x"

subsection \<open>\<open>rename_jpg_files\<close>\<close>

text \<open>The body of the loop over \<open>sorted(to_rename)\<close> (lines 72 to 91), on the folder as it is
  when the file's turn comes.\<close>

definition rename_one :: "string \<Rightarrow> string \<Rightarrow> directory \<times> nat \<Rightarrow> (directory \<times> nat) \<times> event list" where
  "rename_one cls jpg st =
     (case st of (d, max_num) \<Rightarrow>
        if \<not> exists_file d jpg then ((d, max_num), [FsExists jpg False, SkippingMoved jpg])
        else
          let max_num' = max_num + 1;
              new_name = target_name cls max_num'
          in if exists_file d new_name
             then ((d, max_num'),
                   [FsExists jpg True, FsExists new_name True, SkippingTargetExists new_name])
             else (case rename_file jpg new_name d of
                     Inr d' \<Rightarrow> ((d', max_num'),
                                [FsExists jpg True, FsExists new_name False,
                                 Renaming jpg new_name, FsRename jpg new_name])
                   | Inl e \<Rightarrow> ((d, max_num'),
                               [FsExists jpg True, FsExists new_name False,
                                Renaming jpg new_name, FsRename jpg new_name,
                                ErrorRenaming jpg])))"

fun rename_files :: "string \<Rightarrow> string list \<Rightarrow> directory \<times> nat \<Rightarrow> (directory \<times> nat) \<times> event list" where
  "rename_files cls [] st = (st, [])"
| "rename_files cls (jpg # rest) st =
     (case rename_one cls jpg st of (st1, ev1) \<Rightarrow>
        (case rename_files cls rest st1 of (st2, ev2) \<Rightarrow> (st2, ev1 @ ev2)))"

text \<open>The scan of one folder (lines 43 to 69): the set of JPG files, split into the already
  renamed ones with their numbers and the ones to rename.\<close>

definition all_jpgs :: "env \<Rightarrow> directory \<Rightarrow> string list" where
  "all_jpgs e d = remdups (glob e [] ''.jpg'' d @ glob e [] ''.JPG'' d)"

definition already_renamed :: "env \<Rightarrow> string \<Rightarrow> directory \<Rightarrow> (nat \<times> string) list" where
  "already_renamed e cls d =
     map (\<lambda>jpg. (int_of_digits (first_digits jpg), jpg)) (filter (canonical cls) (all_jpgs e d))"

definition to_rename :: "env \<Rightarrow> string \<Rightarrow> directory \<Rightarrow> string list" where
  "to_rename e cls d = filter (\<lambda>jpg. \<not> canonical cls jpg) (all_jpgs e d)"

definition scan_max_num :: "env \<Rightarrow> string \<Rightarrow> directory \<Rightarrow> nat" where
  "scan_max_num e cls d =
     (if already_renamed e cls d \<noteq> [] then max_list (map fst (already_renamed e cls d)) else 0)"

definition rename_class :: "env \<Rightarrow> string \<Rightarrow> filesystem \<Rightarrow> filesystem \<times> event list" where
  "rename_class e cls fs =
     (case map_of fs cls of
        None \<Rightarrow> (fs, [FsDirExists cls False, FolderNotFound cls])
      | Some d \<Rightarrow>
          let head = [FsDirExists cls True, ProcessingFolder cls,
                      AlreadyRenamed (length (already_renamed e cls d)),
                      NeedToRename (length (to_rename e cls d))]
          in if to_rename e cls d = [] then (fs, head)
             else (case rename_files cls (sorted_paths e (to_rename e cls d))
                          (d, scan_max_num e cls d) of
                     ((d', m), ev) \<Rightarrow>
                       (AList.update cls d' fs,
                        head @ ev @ [FinalCount (length (glob e (lower cls) ''.jpg'' d'))])))"

definition class_folders :: "string list" where
  "class_folders = [''Good'', ''Bad'', ''Ugly'']"

fun rename_classes :: "env \<Rightarrow> string list \<Rightarrow> filesystem \<Rightarrow> filesystem \<times> event list" where
  "rename_classes e [] fs = (fs, [])"
| "rename_classes e (cls # rest) fs =
     (case rename_class e cls fs of (fs1, ev1) \<Rightarrow>
        (case rename_classes e rest fs1 of (fs2, ev2) \<Rightarrow> (fs2, ev1 @ ev2)))"

definition rename_jpg_files :: "env \<Rightarrow> filesystem \<Rightarrow> filesystem \<times> event list" where
  "rename_jpg_files e fs = rename_classes e class_folders fs"

subsection \<open>\<open>convert_and_rename_heic_to_jpg\<close>\<close>

record 'i codec =
  img_open :: "bytes \<Rightarrow> 'i option"
  img_convert :: "'i \<Rightarrow> 'i option"
  img_save :: "'i \<Rightarrow> bytes option"

record cstate =
  c_dir :: directory
  next_num :: nat
  total_converted :: int
  total_deleted :: int
  total_errors :: int
  c_escaped :: "error option"

text \<open>The \<open>try\<close> block after its first message (lines 144 to 153). The result holds the
  exception raised, if any, and the state reached when it was raised: the counters of a
  finished conversion stay incremented when the deletion fails.\<close>

definition convert_body ::
  "env \<Rightarrow> 'i codec \<Rightarrow> bool \<Rightarrow> string \<Rightarrow> string \<Rightarrow> cstate \<Rightarrow>
   error option \<times> cstate \<times> event list" where
  "convert_body e cd delete_originals heic new_name st =
     (case map_of (c_dir st) heic of
        None \<Rightarrow> (Some FileNotFoundError, st, [FsOpen heic])
      | Some raw \<Rightarrow>
         (case img_open cd raw of
            None \<Rightarrow> (Some DecodeError, st, [FsOpen heic])
          | Some img \<Rightarrow>
             (case img_convert cd img of
                None \<Rightarrow> (Some ConvertError, st, [FsOpen heic])
              | Some rgb \<Rightarrow>
                 (case img_save cd rgb of
                    None \<Rightarrow> (Some EncodeError, st, [FsOpen heic, FsSave new_name])
                  | Some jpg \<Rightarrow>
                     let st1 = st\<lparr>c_dir := write_file new_name jpg (c_dir st),
                                  total_converted := total_converted st + 1,
                                  next_num := next_num st + 1\<rparr>
                     in if delete_originals
                        then (case unlink e heic (c_dir st1) of
                                Inl x \<Rightarrow> (Some x, st1, [FsOpen heic, FsSave new_name, FsUnlink heic])
                              | Inr d' \<Rightarrow>
                                  (None,
                                   st1\<lparr>c_dir := d', total_deleted := total_deleted st1 + 1\<rparr>,
                                   [FsOpen heic, FsSave new_name, FsUnlink heic]))
                        else (None, st1, [FsOpen heic, FsSave new_name])))))"

text \<open>One turn of the loop over \<open>heic_files\<close> (lines 138 to 157): the \<open>try\<close> block and its
  handler. The message at the head of the \<open>try\<close> block (line 143) and the message of the
  handler (line 156) both hold the name of the HEIC file. When the output stream cannot
  encode that name, the first \<open>print\<close> raises inside the \<open>try\<close> block, the handler's \<open>print\<close>
  raises again before the error is counted, and this second exception leaves the function.\<close>

definition convert_one ::
  "env \<Rightarrow> 'i codec \<Rightarrow> string \<Rightarrow> bool \<Rightarrow> string \<Rightarrow> cstate \<Rightarrow> cstate \<times> event list" where
  "convert_one e cd cls delete_originals heic st =
     (let new_name = target_name cls (next_num st)
      in if \<not> printable e heic then (st\<lparr>c_escaped := Some UnicodeEncodeError\<rparr>, [])
         else case convert_body e cd delete_originals heic new_name st of
                (None, st', ev) \<Rightarrow> (st', Converting heic new_name # ev)
              | (Some x, st', ev) \<Rightarrow>
                  (st'\<lparr>total_errors := total_errors st' + 1\<rparr>,
                   Converting heic new_name # ev @ [ErrorConverting heic]))"

text \<open>The loop ends when an exception has left the body.\<close>

fun convert_files ::
  "env \<Rightarrow> 'i codec \<Rightarrow> string \<Rightarrow> bool \<Rightarrow> string list \<Rightarrow> cstate \<Rightarrow> cstate \<times> event list" where
  "convert_files e cd cls delete_originals [] st = (st, [])"
| "convert_files e cd cls delete_originals (heic # rest) st =
     (case convert_one e cd cls delete_originals heic st of (st1, ev1) \<Rightarrow>
        if c_escaped st1 \<noteq> None then (st1, ev1)
        else (case convert_files e cd cls delete_originals rest st1 of
                (st2, ev2) \<Rightarrow> (st2, ev1 @ ev2)))"

text \<open>The scan of one folder (lines 121 to 135). The two lists of line 121 are joined as
  they are: a file that both patterns match is listed twice.\<close>

definition heic_files :: "env \<Rightarrow> directory \<Rightarrow> string list" where
  "heic_files e d = sorted_paths e (glob e [] ''.HEIC'' d @ glob e [] ''.heic'' d)"

definition start_num :: "env \<Rightarrow> string \<Rightarrow> directory \<Rightarrow> nat" where
  "start_num e cls d =
     (let existing = glob e (lower cls) ''.jpg'' d
      in if existing \<noteq> []
         then (let nums = map (\<lambda>f. int_of_digits (first_digits f))
                              (filter (\<lambda>f. first_digits f \<noteq> []) existing)
               in if nums \<noteq> [] then max_list nums + 1 else 1)
         else 1)"

record totals =
  t_fs :: filesystem
  converted :: int
  deleted :: int
  errors :: int
  escaped :: "error option"

definition convert_class ::
  "env \<Rightarrow> 'i codec \<Rightarrow> bool \<Rightarrow> string \<Rightarrow> totals \<Rightarrow> totals \<times> event list" where
  "convert_class e cd delete_originals cls t =
     (case map_of (t_fs t) cls of
        None \<Rightarrow> (t, [FsDirExists cls False, FolderNotFound cls])
      | Some d \<Rightarrow>
          if heic_files e d = []
          then (t, [FsDirExists cls True, ProcessingFolder cls, NoHeicFound cls])
          else (case convert_files e cd cls delete_originals (heic_files e d)
                       \<lparr>c_dir = d, next_num = start_num e cls d,
                        total_converted = converted t, total_deleted = deleted t,
                        total_errors = errors t, c_escaped = None\<rparr> of
                  (st, ev) \<Rightarrow>
                    (\<lparr>t_fs = AList.update cls (c_dir st) (t_fs t),
                      converted = total_converted st, deleted = total_deleted st,
                      errors = total_errors st, escaped = c_escaped st\<rparr>,
                     [FsDirExists cls True, ProcessingFolder cls,
                      FoundHeic (length (heic_files e d))] @ ev)))"

fun convert_classes ::
  "env \<Rightarrow> 'i codec \<Rightarrow> bool \<Rightarrow> string list \<Rightarrow> totals \<Rightarrow> totals \<times> event list" where
  "convert_classes e cd delete_originals [] t = (t, [])"
| "convert_classes e cd delete_originals (cls # rest) t =
     (case convert_class e cd delete_originals cls t of (t1, ev1) \<Rightarrow>
        if escaped t1 \<noteq> None then (t1, ev1)
        else (case convert_classes e cd delete_originals rest t1 of
                (t2, ev2) \<Rightarrow> (t2, ev1 @ ev2)))"

text \<open>The function returns the triple \<open>(converted, deleted, errors)\<close>; the model returns it
  in \<open>totals\<close> together with the file system it leaves, and the events. When \<open>escaped\<close>
  holds an exception, the function has not returned: that exception has reached the caller,
  the summary is not printed, and the counters are those of the moment it was raised.\<close>

definition convert_and_rename_heic_to_jpg ::
  "env \<Rightarrow> 'i codec \<Rightarrow> filesystem \<Rightarrow> bool \<Rightarrow> totals \<times> event list" where
  "convert_and_rename_heic_to_jpg e cd fs delete_originals =
     (case convert_classes e cd delete_originals class_folders
             \<lparr>t_fs = fs, converted = 0, deleted = 0, errors = 0, escaped = None\<rparr> of
        (t, ev) \<Rightarrow>
          (t, if escaped t = None then ev @ [Summary (converted t) (deleted t) (errors t)]
              else ev))"

text \<open>The two flavours, with every file deletable and every name printable.\<close>

definition posix_env :: env where
  "posix_env = \<lparr>ci_glob = False, can_unlink = (\<lambda>x. True), printable = (\<lambda>x. True)\<rparr>"

definition windows_env :: env where
  "windows_env = \<lparr>ci_glob = True, can_unlink = (\<lambda>x. True), printable = (\<lambda>x. True)\<rparr>"

text \<open>A codec for the examples: every file whose content starts with \<open>H\<close> decodes, and its
  JPEG is the content with \<open>J\<close> in front.\<close>

definition demo_codec :: "string codec" where
  "demo_codec = \<lparr>img_open = (\<lambda>raw. if take 1 raw = ''H'' then Some raw else None),
                 img_convert = Some,
                 img_save = (\<lambda>img. Some (''J'' @ img))\<rparr>"

subsection \<open>Notions used to state the properties\<close>

text \<open>Every file of \<open>d\<close> is in \<open>d'\<close> with its content, under its own name when that
  name is canonical.\<close>

definition kept :: "string \<Rightarrow> directory \<Rightarrow> directory \<Rightarrow> bool" where
  "kept cls d d' =
     (\<forall>y c. map_of d y = Some c \<longrightarrow> (\<exists>y'. map_of d' y' = Some c \<and> (canonical cls y \<longrightarrow> y' = y)))"

text \<open>A folder and a dataset directory for the examples.\<close>

definition demo_dir :: directory where
  "demo_dir = [(''IMG_2.jpg'', ''b''), (''good5.jpg'', ''x''), (''IMG_3.jpg'', ''c'')]"

definition demo_fs :: filesystem where
  "demo_fs = [(''Good'', [(''IMG_1.jpg'', ''a''), (''good1.jpg'', ''x'')])]"

text \<open>The invariant of the three counters.\<close>

definition counts_ok :: "bool \<Rightarrow> int \<Rightarrow> int \<Rightarrow> int \<Rightarrow> bool" where
  "counts_ok del c d e = (0 \<le> d \<and> d \<le> c \<and> 0 \<le> e \<and> (\<not> del \<longrightarrow> d = 0))"

text \<open>An output stream that cannot encode the byte \<open>0xFF\<close>, which is no UTF-8: Python holds
  such a byte of a file name as a lone surrogate, and \<open>print\<close> raises on it.\<close>

definition utf8_env :: env where
  "utf8_env = \<lparr>ci_glob = False, can_unlink = (\<lambda>x. True), printable = (\<lambda>x. CHR 0xFF \<notin> set x)\<rparr>"

definition demo_unprintable :: filesystem where
  "demo_unprintable =
     [(''Good'', [(''a.HEIC'', ''x''), (CHR ''b'' # CHR 0xFF # ''.HEIC'', ''H2''),
                  (''c.HEIC'', ''H3'')]),
      (''Bad'', [(''d.HEIC'', ''H4'')])]"

text \<open>Stated from the specification: the suffix of a canonical name, and the next suffix,
  one past the largest suffix of the canonical names, or 1 if there is none; and a name
  with a HEIC extension, whatever its case.\<close>

definition canonical_suffix :: "string \<Rightarrow> string \<Rightarrow> nat" where
  "canonical_suffix cls name = int_of_digits (takeWhile is_digit (drop (length cls) name))"

definition spec_next_suffix :: "string \<Rightarrow> string list \<Rightarrow> nat" where
  "spec_next_suffix cls ns =
     (let sufs = map (canonical_suffix cls) (filter (canonical cls) ns)
      in if sufs = [] then 1 else Max (set sufs) + 1)"

definition has_heic_extension :: "string \<Rightarrow> bool" where
  "has_heic_extension name = fnmatch_star [] ''.heic'' (lower name)"

text \<open>The three steps of the image library in a row.\<close>

definition transcode :: "'i codec \<Rightarrow> bytes \<Rightarrow> bytes option" where
  "transcode cd raw =
     (case img_open cd raw of
        None \<Rightarrow> None
      | Some img \<Rightarrow> (case img_convert cd img of None \<Rightarrow> None | Some rgb \<Rightarrow> img_save cd rgb))"

text \<open>The folders of the scenarios.\<close>

definition demo_scenario :: filesystem where
  "demo_scenario =
     [(''Good'', [(''IMG_001.HEIC'', ''Hraw''), (''good1.jpg'', ''old'')]),
      (''Bad'', []), (''Ugly'', [])]"

definition demo_loose :: directory where
  "demo_loose = [(''a.HEIC'', ''H1''), (''goodbye7.jpg'', ''x'')]"

definition demo_mixed_case :: directory where
  "demo_mixed_case = [(''IMG_1.Heic'', ''H1'')]"

definition demo_loose_lower :: directory where
  "demo_loose_lower = [(''b.heic'', ''H2''), (''goodies2024.jpg'', ''y'')]"















section \<open>Properties\<close>

subsection \<open>Decimal numbers and canonical names\<close>

lemma digit_cases: "d < 10 \<Longrightarrow> d \<in> {0, 1, 2, 3, 4, 5, 6, 7, 8, 9::nat}"
  by auto

lemma digit_char_is_digit: "d < 10 \<Longrightarrow> is_digit (digit_char d)"
  using digit_cases[of d] by (auto simp: digit_char_def is_digit_def)

lemma digit_val_digit_char: "d < 10 \<Longrightarrow> digit_val (digit_char d) = d"
  using digit_cases[of d] by (auto simp: digit_char_def digit_val_def)

lemma str_nat_digits: "c \<in> set (str_nat n) \<Longrightarrow> is_digit c"
proof (induction n arbitrary: c rule: str_nat.induct)
  case (1 n)
  show ?case
  proof (cases "n < 10")
    case True
    with "1.prems" show ?thesis by (simp add: str_nat.simps[of n] digit_char_is_digit)
  next
    case False
    with "1.prems" "1.IH" show ?thesis
      by (auto simp: str_nat.simps[of n] digit_char_is_digit)
  qed
qed

lemma str_nat_nonempty: "str_nat n \<noteq> []"
  by (simp add: str_nat.simps[of n])

lemma int_of_digits_snoc: "int_of_digits (s @ [c]) = 10 * int_of_digits s + digit_val c"
  by (simp add: int_of_digits_def)

lemma int_of_digits_str_nat: "int_of_digits (str_nat n) = n"
proof (induction n rule: str_nat.induct)
  case (1 n)
  show ?case
  proof (cases "n < 10")
    case True
    then show ?thesis
      by (simp add: str_nat.simps[of n] int_of_digits_def digit_val_digit_char)
  next
    case False
    with "1.IH" show ?thesis
      by (simp add: str_nat.simps[of n] int_of_digits_snoc digit_val_digit_char)
  qed
qed

lemma str_nat_inj: "str_nat a = str_nat b \<Longrightarrow> a = b"
  by (metis int_of_digits_str_nat)

lemma target_name_inj: "target_name cls a = target_name cls b \<Longrightarrow> a = b"
  by (simp add: target_name_def str_nat_inj)

lemma to_lower_digit: "is_digit c \<Longrightarrow> to_lower c = c"
proof -
  have "\<forall>x\<in>set ''0123456789''. to_lower x = x" by code_simp
  then show "is_digit c \<Longrightarrow> to_lower c = c" unfolding is_digit_def by blast
qed

lemma to_lower_idem: "to_lower (to_lower c) = to_lower c"
  by (simp add: to_lower_def)

lemma lower_idem: "lower (lower s) = lower s"
  by (simp add: lower_def to_lower_idem)

lemma lower_digits: "\<forall>c\<in>set s. is_digit c \<Longrightarrow> lower s = s"
  by (simp add: lower_def to_lower_digit map_idI)

lemma lower_target_name: "lower (target_name cls n) = target_name cls n"
proof -
  have "lower (str_nat n) = str_nat n" by (simp add: lower_digits str_nat_digits)
  moreover have "lower ''.jpg'' = ''.jpg''" by (simp add: lower_def to_lower_def)
  ultimately show ?thesis
    using lower_idem[of cls] by (simp add: target_name_def lower_def)
qed

lemma takeWhile_digits_ext: "takeWhile is_digit (str_nat n @ ''.jpg'') = str_nat n"
  using takeWhile_append2[of "str_nat n" is_digit "''.jpg''"] str_nat_digits
  by (simp add: is_digit_def)

lemma dropWhile_digits_ext: "dropWhile is_digit (str_nat n @ ''.jpg'') = ''.jpg''"
  using dropWhile_append2[of "str_nat n" is_digit "''.jpg''"] str_nat_digits
  by (simp add: is_digit_def)

lemma canonical_target_name: "canonical cls (target_name cls n)"
proof -
  have "take (length (lower cls)) (target_name cls n) = lower cls"
    and "drop (length (lower cls)) (target_name cls n) = str_nat n @ ''.jpg''"
    by (simp_all add: target_name_def)
  then show ?thesis
    unfolding canonical_def Let_def lower_target_name
    by (simp only: takeWhile_digits_ext dropWhile_digits_ext str_nat_nonempty
        not_False_eq_True simp_thms)
qed

lemma not_canonical_not_target: "\<not> canonical cls x \<Longrightarrow> x \<noteq> target_name cls k"
  using canonical_target_name by blast

subsection \<open>The rename loop\<close>

lemma rename_one_unfold:
  "rename_one cls x (d, m) =
     (if \<not> exists_file d x then ((d, m), [FsExists x False, SkippingMoved x])
      else if exists_file d (target_name cls (Suc m))
      then ((d, Suc m), [FsExists x True, FsExists (target_name cls (Suc m)) True,
                         SkippingTargetExists (target_name cls (Suc m))])
      else ((write_file (target_name cls (Suc m)) (the (map_of d x)) (AList.delete x d), Suc m),
            [FsExists x True, FsExists (target_name cls (Suc m)) False,
             Renaming x (target_name cls (Suc m)), FsRename x (target_name cls (Suc m))]))"
  by (auto simp: rename_one_def rename_file_def exists_file_def Let_def split: option.splits)

lemma rename_files_Cons:
  "rename_files cls (x # xs) st =
     (fst (rename_files cls xs (fst (rename_one cls x st))),
      snd (rename_one cls x st) @ snd (rename_files cls xs (fst (rename_one cls x st))))"
  by (simp split: prod.splits)

declare rename_files.simps(2) [simp del]

text \<open>The targets named in a run are numbered above the counter it starts from.\<close>

lemma rename_files_targets:
  assumes "Renaming s t \<in> set (snd (rename_files cls xs (d, m))) \<or>
           SkippingTargetExists t \<in> set (snd (rename_files cls xs (d, m)))"
  shows "\<exists>k>m. t = target_name cls k"
  using assms
proof (induction xs arbitrary: d m)
  case Nil
  then show ?case by simp
next
  case (Cons x xs)
  show ?case
  proof (cases "\<not> exists_file d x")
    case True
    with Cons.prems have "Renaming s t \<in> set (snd (rename_files cls xs (d, m))) \<or>
           SkippingTargetExists t \<in> set (snd (rename_files cls xs (d, m)))"
      by (simp add: rename_files_Cons rename_one_unfold)
    from Cons.IH[OF this] show ?thesis .
  next
    case False
    obtain d1 where d1: "fst (rename_one cls x (d, m)) = (d1, Suc m)"
      using False
      by (cases "exists_file d (target_name cls (Suc m))") (simp_all add: rename_one_unfold)
    from Cons.prems False d1
    have "t = target_name cls (Suc m) \<or>
          (Renaming s t \<in> set (snd (rename_files cls xs (d1, Suc m))) \<or>
           SkippingTargetExists t \<in> set (snd (rename_files cls xs (d1, Suc m))))"
      by (auto simp: rename_files_Cons rename_one_unfold split: if_splits)
    then show ?thesis
    proof
      assume "t = target_name cls (Suc m)"
      then show ?thesis by blast
    next
      assume "Renaming s t \<in> set (snd (rename_files cls xs (d1, Suc m))) \<or>
           SkippingTargetExists t \<in> set (snd (rename_files cls xs (d1, Suc m)))"
      from Cons.IH[OF this] show ?thesis using Suc_lessD by blast
    qed
  qed
qed

text \<open>A name reported as an occupied target is not the target of a rename of the same run.\<close>

lemma rename_files_skipped_target_unused:
  assumes "SkippingTargetExists t \<in> set (snd (rename_files cls xs (d, m)))"
  shows "Renaming s t \<notin> set (snd (rename_files cls xs (d, m)))"
  using assms
proof (induction xs arbitrary: d m)
  case Nil
  then show ?case by simp
next
  case (Cons x xs)
  show ?case
  proof (cases "\<not> exists_file d x")
    case True
    with Cons.prems Cons.IH[of d m] show ?thesis
      by (simp add: rename_files_Cons rename_one_unfold)
  next
    case False
    obtain d1 where d1: "fst (rename_one cls x (d, m)) = (d1, Suc m)"
      using False
      by (cases "exists_file d (target_name cls (Suc m))") (simp_all add: rename_one_unfold)
    let ?rest = "snd (rename_files cls xs (d1, Suc m))"
    have later: "\<And>s'. Renaming s' (target_name cls (Suc m)) \<notin> set ?rest"
      "SkippingTargetExists (target_name cls (Suc m)) \<notin> set ?rest"
      using rename_files_targets[of _ "target_name cls (Suc m)" cls xs d1 "Suc m"]
        target_name_inj[of cls "Suc m"] by blast+
    show ?thesis
    proof (cases "exists_file d (target_name cls (Suc m))")
      case True
      with Cons.prems False d1 later Cons.IH[of d1 "Suc m"] show ?thesis
        by (auto simp: rename_files_Cons rename_one_unfold)
    next
      case nt: False
      with Cons.prems False d1 later Cons.IH[of d1 "Suc m"] show ?thesis
        by (auto simp: rename_files_Cons rename_one_unfold)
    qed
  qed
qed

text \<open>A run touches only the files of its list and the target names.\<close>

lemma rename_files_frame:
  assumes "x \<notin> set xs" and "\<And>k. x \<noteq> target_name cls k"
  shows "map_of (fst (fst (rename_files cls xs (d, m)))) x = map_of d x"
  using assms(1)
proof (induction xs arbitrary: d m)
  case Nil
  then show ?case by simp
next
  case (Cons y ys)
  then have ne: "x \<noteq> y" and notin: "x \<notin> set ys" by auto
  show ?case
    using Cons.IH[OF notin] ne assms(2)[of "Suc m"]
    by (simp add: rename_files_Cons rename_one_unfold write_file_def update_conv' delete_conv')
qed

text \<open>
  Claim C3. When a file to rename exists and the name computed for it, \<open><label><n>.jpg\<close>
  with \<open>n\<close> one above the counter, exists as well, the file is skipped with the message
  "Skipping (target exists)" and the directory stays as it is; the loop goes on with the other
  files from counter \<open>n\<close>, exactly as a run over them alone would; no rename of the run takes
  the name \<open><label><n>.jpg\<close>; and at the end of the run the skipped file is still there
  under its old name.
\<close>

theorem collision_skip:
  assumes "exists_file d jpg" and "exists_file d (target_name cls (Suc m))"
    and "jpg \<notin> set rest" and "\<not> canonical cls jpg"
  shows "rename_files cls (jpg # rest) (d, m) =
           (fst (rename_files cls rest (d, Suc m)),
            [FsExists jpg True, FsExists (target_name cls (Suc m)) True,
             SkippingTargetExists (target_name cls (Suc m))] @
            snd (rename_files cls rest (d, Suc m))) \<and>
         (\<forall>src. Renaming src (target_name cls (Suc m)) \<notin>
                  set (snd (rename_files cls (jpg # rest) (d, m)))) \<and>
         map_of (fst (fst (rename_files cls (jpg # rest) (d, m)))) jpg = map_of d jpg"
proof -
  let ?t = "target_name cls (Suc m)"
  have eq: "rename_files cls (jpg # rest) (d, m) =
           (fst (rename_files cls rest (d, Suc m)),
            [FsExists jpg True, FsExists ?t True, SkippingTargetExists ?t] @
            snd (rename_files cls rest (d, Suc m)))"
    using assms(1,2) by (simp add: rename_files_Cons rename_one_unfold)
  then have "SkippingTargetExists ?t \<in> set (snd (rename_files cls (jpg # rest) (d, m)))"
    by simp
  then have unused: "\<forall>src. Renaming src ?t \<notin> set (snd (rename_files cls (jpg # rest) (d, m)))"
    using rename_files_skipped_target_unused by blast
  have "map_of (fst (fst (rename_files cls rest (d, Suc m)))) jpg = map_of d jpg"
    using rename_files_frame[OF assms(3)] not_canonical_not_target[OF assms(4)] by blast
  with eq unused show ?thesis by simp
qed

theorem collision_skip_witness:
  "exists_file demo_dir ''IMG_2.jpg'' \<and>
   exists_file demo_dir (target_name ''Good'' (Suc 4)) \<and>
   ''IMG_2.jpg'' \<notin> set [''IMG_3.jpg''] \<and>
   \<not> canonical ''Good'' ''IMG_2.jpg'' \<and>
   snd (rename_files ''Good'' [''IMG_2.jpg'', ''IMG_3.jpg''] (demo_dir, 4)) =
     [FsExists ''IMG_2.jpg'' True, FsExists ''good5.jpg'' True, SkippingTargetExists ''good5.jpg'',
      FsExists ''IMG_3.jpg'' True, FsExists ''good6.jpg'' False,
      Renaming ''IMG_3.jpg'' ''good6.jpg'', FsRename ''IMG_3.jpg'' ''good6.jpg''] \<and>
   map_of (fst (fst (rename_files ''Good'' [''IMG_2.jpg'', ''IMG_3.jpg''] (demo_dir, 4))))
     ''IMG_2.jpg'' = Some ''b''"
proof -
  have h1: "exists_file demo_dir ''IMG_2.jpg''" by code_simp
  have h2: "exists_file demo_dir (target_name ''Good'' (Suc 4))" by code_simp
  have h3: "''IMG_2.jpg'' \<notin> set [''IMG_3.jpg'']" by simp
  have h4: "\<not> canonical ''Good'' ''IMG_2.jpg''" by code_simp
  have t: "target_name ''Good'' (Suc 4) = ''good5.jpg''" by code_simp
  have r: "snd (rename_files ''Good'' [''IMG_3.jpg''] (demo_dir, Suc 4)) =
     [FsExists ''IMG_3.jpg'' True, FsExists ''good6.jpg'' False,
      Renaming ''IMG_3.jpg'' ''good6.jpg'', FsRename ''IMG_3.jpg'' ''good6.jpg'']"
    by code_simp
  have m: "map_of demo_dir ''IMG_2.jpg'' = Some ''b''" by code_simp
  note c = collision_skip[OF h1 h2 h3 h4]
  from c have "snd (rename_files ''Good'' [''IMG_2.jpg'', ''IMG_3.jpg''] (demo_dir, 4)) =
      [FsExists ''IMG_2.jpg'' True, FsExists (target_name ''Good'' (Suc 4)) True,
       SkippingTargetExists (target_name ''Good'' (Suc 4))] @
      snd (rename_files ''Good'' [''IMG_3.jpg''] (demo_dir, Suc 4))"
    by (metis snd_conv)
  then have e: "snd (rename_files ''Good'' [''IMG_2.jpg'', ''IMG_3.jpg''] (demo_dir, 4)) =
     [FsExists ''IMG_2.jpg'' True, FsExists ''good5.jpg'' True, SkippingTargetExists ''good5.jpg'',
      FsExists ''IMG_3.jpg'' True, FsExists ''good6.jpg'' False,
      Renaming ''IMG_3.jpg'' ''good6.jpg'', FsRename ''IMG_3.jpg'' ''good6.jpg'']"
    by (simp only: t r append.simps)
  from c[THEN conjunct2, THEN conjunct2] m have k: "map_of (fst (fst (rename_files ''Good'' [''IMG_2.jpg'', ''IMG_3.jpg'']
      (demo_dir, 4)))) ''IMG_2.jpg'' = Some ''b''"
    by (simp only:)
  from h1 h2 h3 h4 e k show ?thesis by blast
qed


lemma rename_one_events_other:
  assumes "y \<noteq> x"
  shows "SkippingMoved x \<notin> set (snd (rename_one cls y st)) \<and>
         Renaming x t \<notin> set (snd (rename_one cls y st)) \<and>
         FsRename x t \<notin> set (snd (rename_one cls y st))"
  using assms by (cases st) (auto simp: rename_one_unfold)






lemma rename_files_sources:
  "Renaming s t \<in> set (snd (rename_files cls xs st)) \<Longrightarrow> s \<in> set xs"
proof (induction xs arbitrary: st)
  case Nil
  then show ?case by simp
next
  case (Cons y ys)
  from Cons.prems
  have "Renaming s t \<in> set (snd (rename_one cls y st)) \<or>
        Renaming s t \<in> set (snd (rename_files cls ys (fst (rename_one cls y st))))"
    by (simp add: rename_files_Cons)
  then show ?case
  proof
    assume "Renaming s t \<in> set (snd (rename_one cls y st))"
    then have "s = y" using rename_one_events_other[where y=y and x=s and cls=cls and t=t and st=st] by blast
    then show ?thesis by simp
  next
    assume "Renaming s t \<in> set (snd (rename_files cls ys (fst (rename_one cls y st))))"
    from Cons.IH[OF this] show ?thesis by simp
  qed
qed

lemma rename_files_kept:
  assumes "\<And>x k. x \<in> set xs \<Longrightarrow> x \<noteq> target_name cls k" and "map_of d y = Some c"
  shows "\<exists>y'. map_of (fst (fst (rename_files cls xs (d, m)))) y' = Some c \<and>
              (y' = y \<or> y \<in> set xs)"
  using assms
proof (induction xs arbitrary: d m y)
  case Nil
  then show ?case by simp
next
  case (Cons x xs)
  have tl: "\<And>z k. z \<in> set xs \<Longrightarrow> z \<noteq> target_name cls k"
    using Cons.prems(1) by simp
  let ?t = "target_name cls (Suc m)"
  show ?case
  proof (cases "exists_file d x \<and> \<not> exists_file d ?t")
    case False
    then obtain m1 where "fst (rename_one cls x (d, m)) = (d, m1)"
      by (cases "exists_file d x") (simp_all add: rename_one_unfold)
    with Cons.IH[OF tl Cons.prems(2), of m1] show ?thesis
      by (auto simp: rename_files_Cons)
  next
    case True
    let ?d1 = "write_file ?t (the (map_of d x)) (AList.delete x d)"
    have st1: "fst (rename_one cls x (d, m)) = (?d1, Suc m)"
      using True by (simp add: rename_one_unfold)
    show ?thesis
    proof (cases "y = x")
      case yx: True
      have "map_of ?d1 ?t = Some c"
        using Cons.prems(2) yx by (simp add: write_file_def update_conv')
      from Cons.IH[OF tl this, of "Suc m"] tl[of ?t "Suc m"] st1 yx show ?thesis
        by (auto simp: rename_files_Cons)
    next
      case False
      have "y \<noteq> ?t" using True Cons.prems(2) by (auto simp: exists_file_def)
      then have "map_of ?d1 y = Some c"
        using Cons.prems(2) False by (simp add: write_file_def update_conv' delete_conv')
      from Cons.IH[OF tl this, of "Suc m"] st1 show ?thesis
        by (auto simp: rename_files_Cons)
    qed
  qed
qed

lemma rename_files_unlisted_kept:
  assumes "y \<notin> set xs" and "map_of d y = Some c"
  shows "map_of (fst (fst (rename_files cls xs (d, m)))) y = Some c"
  using assms
proof (induction xs arbitrary: d m)
  case Nil
  then show ?case by simp
next
  case (Cons x xs)
  then have ne: "y \<noteq> x" and notin: "y \<notin> set xs" by auto
  let ?t = "target_name cls (Suc m)"
  show ?case
  proof (cases "exists_file d x \<and> \<not> exists_file d ?t")
    case False
    then obtain m1 where "fst (rename_one cls x (d, m)) = (d, m1)"
      by (cases "exists_file d x") (simp_all add: rename_one_unfold)
    with Cons.IH[OF notin Cons.prems(2), of m1] show ?thesis
      by (simp add: rename_files_Cons)
  next
    case True
    let ?d1 = "write_file ?t (the (map_of d x)) (AList.delete x d)"
    have st1: "fst (rename_one cls x (d, m)) = (?d1, Suc m)"
      using True by (simp add: rename_one_unfold)
    have "y \<noteq> ?t" using True Cons.prems(2) by (auto simp: exists_file_def)
    then have "map_of ?d1 y = Some c"
      using Cons.prems(2) ne by (simp add: write_file_def update_conv' delete_conv')
    from Cons.IH[OF notin this, of "Suc m"] st1 show ?thesis
      by (simp add: rename_files_Cons)
  qed
qed


subsection \<open>What the rename pass leaves in place\<close>

lemma set_sorted_paths: "set (sorted_paths e xs) = set xs"
  by (simp add: sorted_paths_def)


lemma to_rename_not_canonical: "x \<in> set (to_rename e cls d) \<Longrightarrow> \<not> canonical cls x"
  by (simp add: to_rename_def)

lemma kept_refl: "kept cls d d"
  by (auto simp: kept_def)

lemma rename_files_scan_kept:
  "kept cls d (fst (fst (rename_files cls (sorted_paths e (to_rename e cls d)) (d, m))))"
  unfolding kept_def
proof (intro allI impI)
  fix y c
  assume yc: "map_of d y = Some c"
  let ?xs = "sorted_paths e (to_rename e cls d)"
  let ?d' = "fst (fst (rename_files cls ?xs (d, m)))"
  show "\<exists>y'. map_of ?d' y' = Some c \<and> (canonical cls y \<longrightarrow> y' = y)"
  proof (cases "canonical cls y")
    case True
    then have "y \<notin> set ?xs" using to_rename_not_canonical by (auto simp: set_sorted_paths)
    from rename_files_unlisted_kept[OF this yc] show ?thesis by blast
  next
    case False
    have "\<And>x k. x \<in> set ?xs \<Longrightarrow> x \<noteq> target_name cls k"
      using to_rename_not_canonical not_canonical_not_target by (auto simp: set_sorted_paths)
    from rename_files_kept[OF this yc, of ?xs m] False show ?thesis by blast
  qed
qed

lemma rename_class_dir:
  assumes "map_of fs cls = Some d"
  shows "\<exists>d'. map_of (fst (rename_class e cls fs)) cls = Some d' \<and> kept cls d d'"
proof (cases "to_rename e cls d = []")
  case True
  with assms show ?thesis by (simp add: rename_class_def kept_refl)
next
  case False
  let ?r = "rename_files cls (sorted_paths e (to_rename e cls d)) (d, scan_max_num e cls d)"
  have "fst (rename_class e cls fs) = AList.update cls (fst (fst ?r)) fs"
    using assms False by (simp add: rename_class_def split: prod.splits)
  then have "map_of (fst (rename_class e cls fs)) cls = Some (fst (fst ?r))"
    by (simp add: update_conv')
  with rename_files_scan_kept show ?thesis by blast
qed

lemma rename_class_other:
  "c \<noteq> cls \<Longrightarrow> map_of (fst (rename_class e cls fs)) c = map_of fs c"
  by (auto simp: rename_class_def update_conv' Let_def split: option.splits prod.splits)

lemma rename_classes_Cons:
  "rename_classes e (c # cs) fs =
     (fst (rename_classes e cs (fst (rename_class e c fs))),
      snd (rename_class e c fs) @ snd (rename_classes e cs (fst (rename_class e c fs))))"
  by (simp split: prod.splits)

lemma rename_classes_other:
  "c \<notin> set cs \<Longrightarrow> map_of (fst (rename_classes e cs fs)) c = map_of fs c"
proof (induction cs arbitrary: fs)
  case Nil
  then show ?case by simp
next
  case (Cons a cs)
  then show ?case
    by (simp del: rename_classes.simps add: rename_classes_Cons rename_class_other)
qed

lemma rename_classes_dir:
  assumes "distinct cs" and "cls \<in> set cs" and "map_of fs cls = Some d"
  shows "\<exists>d'. map_of (fst (rename_classes e cs fs)) cls = Some d' \<and> kept cls d d'"
  using assms
proof (induction cs arbitrary: fs)
  case Nil
  then show ?case by simp
next
  case (Cons a cs)
  show ?case
  proof (cases "cls = a")
    case True
    then have "cls \<notin> set cs" using Cons.prems(1) by simp
    then have "map_of (fst (rename_classes e (a # cs) fs)) cls =
               map_of (fst (rename_class e a fs)) cls"
      by (simp del: rename_classes.simps add: rename_classes_Cons rename_classes_other)
    with rename_class_dir[OF Cons.prems(3)] True show ?thesis by simp
  next
    case False
    then have "cls \<in> set cs" and "distinct cs" using Cons.prems by auto
    moreover have "map_of (fst (rename_class e a fs)) cls = Some d"
      using False Cons.prems(3) by (simp add: rename_class_other)
    ultimately show ?thesis
      using Cons.IH[of "fst (rename_class e a fs)"]
      by (simp del: rename_classes.simps add: rename_classes_Cons)
  qed
qed

lemma rename_class_sources:
  assumes "Renaming s t \<in> set (snd (rename_class e cls fs))"
  shows "\<not> canonical cls s"
proof (cases "map_of fs cls")
  case None
  with assms show ?thesis by (simp add: rename_class_def)
next
  case (Some d)
  show ?thesis
  proof (cases "to_rename e cls d = []")
    case True
    with Some assms show ?thesis by (simp add: rename_class_def)
  next
    case False
    with Some assms
    have "Renaming s t \<in>
          set (snd (rename_files cls (sorted_paths e (to_rename e cls d)) (d, scan_max_num e cls d)))"
      by (auto simp: rename_class_def split: prod.splits)
    from rename_files_sources[OF this] show ?thesis
      using to_rename_not_canonical by (auto simp: set_sorted_paths)
  qed
qed

text \<open>
  Claim C10. The rename pass never renames a file whose name matches the canonical pattern;
  a rename is only issued for a source that exists and a target that does not exist in the
  directory at that moment; and every file of a class folder is still there after the pass
  with its content, under its own name when that name is canonical.
\<close>

theorem canonical_files_untouched:
  "(\<forall>s t. Renaming s t \<in> set (snd (rename_class e cls fs)) \<longrightarrow> \<not> canonical cls s) \<and>
   (\<forall>s t d m. FsRename s t \<in> set (snd (rename_one cls s (d, m))) \<longrightarrow>
        exists_file d s \<and> \<not> exists_file d t) \<and>
   (cls \<in> set class_folders \<and> map_of fs cls = Some d \<and> map_of d y = Some c \<longrightarrow>
      (\<exists>d' y'. map_of (fst (rename_jpg_files e fs)) cls = Some d' \<and> map_of d' y' = Some c \<and>
               (canonical cls y \<longrightarrow> y' = y)))"
proof (intro conjI allI impI)
  fix s t
  assume "Renaming s t \<in> set (snd (rename_class e cls fs))"
  then show "\<not> canonical cls s" by (rule rename_class_sources)
next
  fix s t d m
  assume "FsRename s t \<in> set (snd (rename_one cls s (d, m)))"
  then show "exists_file d s" and "\<not> exists_file d t"
    by (auto simp: rename_one_unfold split: if_splits)
next
  assume a: "cls \<in> set class_folders \<and> map_of fs cls = Some d \<and> map_of d y = Some c"
  have "distinct class_folders" by (simp add: class_folders_def)
  from rename_classes_dir[OF this, of cls fs d] a
  obtain d' where "map_of (fst (rename_jpg_files e fs)) cls = Some d'" and "kept cls d d'"
    by (auto simp: rename_jpg_files_def)
  with a show "\<exists>d' y'. map_of (fst (rename_jpg_files e fs)) cls = Some d' \<and>
      map_of d' y' = Some c \<and> (canonical cls y \<longrightarrow> y' = y)"
    unfolding kept_def by blast
qed

theorem canonical_files_untouched_witness:
  "Renaming ''IMG_1.jpg'' ''good2.jpg'' \<in> set (snd (rename_class posix_env ''Good'' demo_fs)) \<and>
   \<not> canonical ''Good'' ''IMG_1.jpg'' \<and>
   FsRename ''IMG_1.jpg'' ''good2.jpg'' \<in>
     set (snd (rename_one ''Good'' ''IMG_1.jpg'' ([(''IMG_1.jpg'', ''a''), (''good1.jpg'', ''x'')], 1))) \<and>
   \<not> exists_file [(''IMG_1.jpg'', ''a''), (''good1.jpg'', ''x'')] ''good2.jpg'' \<and>
   ''Good'' \<in> set class_folders \<and>
   map_of demo_fs ''Good'' = Some [(''IMG_1.jpg'', ''a''), (''good1.jpg'', ''x'')] \<and>
   map_of [(''IMG_1.jpg'', ''a''), (''good1.jpg'', ''x'')] ''good1.jpg'' = Some ''x'' \<and>
   canonical ''Good'' ''good1.jpg'' \<and>
   (\<exists>d'. map_of (fst (rename_jpg_files posix_env demo_fs)) ''Good'' = Some d' \<and>
         map_of d' ''good1.jpg'' = Some ''x'')"
proof -
  let ?d = "[(''IMG_1.jpg'', ''a''), (''good1.jpg'', ''x'')]"
  have h1: "Renaming ''IMG_1.jpg'' ''good2.jpg'' \<in> set (snd (rename_class posix_env ''Good'' demo_fs))"
    by code_simp
  have h2: "FsRename ''IMG_1.jpg'' ''good2.jpg'' \<in>
     set (snd (rename_one ''Good'' ''IMG_1.jpg'' (?d, 1)))"
    by code_simp
  have h3: "''Good'' \<in> set class_folders" by code_simp
  have h4: "map_of demo_fs ''Good'' = Some ?d" by code_simp
  have h5: "map_of ?d ''good1.jpg'' = Some ''x''" by simp
  have h6: "canonical ''Good'' ''good1.jpg''" by code_simp
  from canonical_files_untouched[where cls = "''Good''" and e = posix_env and fs = demo_fs
      and d = ?d and y = "''good1.jpg''" and c = "''x''"]
    h1 h2 h3 h4 h5 h6
  show ?thesis by blast
qed

subsection \<open>The counters of the convert pass\<close>

lemma convert_files_Cons:
  "convert_files e cd cls del (h # hs) st =
     (if c_escaped (fst (convert_one e cd cls del h st)) \<noteq> None
      then convert_one e cd cls del h st
      else (fst (convert_files e cd cls del hs (fst (convert_one e cd cls del h st))),
            snd (convert_one e cd cls del h st) @
            snd (convert_files e cd cls del hs (fst (convert_one e cd cls del h st)))))"
  by (simp split: prod.splits)

lemma convert_classes_Cons:
  "convert_classes e cd del (c # cs) t =
     (if escaped (fst (convert_class e cd del c t)) \<noteq> None
      then convert_class e cd del c t
      else (fst (convert_classes e cd del cs (fst (convert_class e cd del c t))),
            snd (convert_class e cd del c t) @
            snd (convert_classes e cd del cs (fst (convert_class e cd del c t)))))"
  by (simp split: prod.splits)

declare convert_files.simps(2) [simp del]

declare convert_classes.simps(2) [simp del]

lemma convert_body_counts:
  assumes "convert_body e cd del h n st = (x, st', ev)"
    and "counts_ok del (total_converted st) (total_deleted st) (total_errors st)"
  shows "counts_ok del (total_converted st') (total_deleted st') (total_errors st')"
  using assms
  by (auto simp: convert_body_def counts_ok_def Let_def split: option.splits sum.splits if_splits)

lemma convert_one_counts:
  assumes "counts_ok del (total_converted st) (total_deleted st) (total_errors st)"
  shows "counts_ok del (total_converted (fst (convert_one e cd cls del h st)))
           (total_deleted (fst (convert_one e cd cls del h st)))
           (total_errors (fst (convert_one e cd cls del h st)))"
proof (cases "printable e h")
  case False
  with assms show ?thesis by (simp add: convert_one_def)
next
  case True
  obtain x s1 e1
    where b: "convert_body e cd del h (target_name cls (next_num st)) st = (x, s1, e1)"
    by (metis prod_cases3)
  from convert_body_counts[OF b assms] b True show ?thesis
    by (cases x) (auto simp: convert_one_def counts_ok_def)
qed

lemma convert_files_counts:
  assumes "counts_ok del (total_converted st) (total_deleted st) (total_errors st)"
  shows "counts_ok del (total_converted (fst (convert_files e cd cls del hs st)))
           (total_deleted (fst (convert_files e cd cls del hs st)))
           (total_errors (fst (convert_files e cd cls del hs st)))"
  using assms
proof (induction hs arbitrary: st)
  case Nil
  then show ?case by simp
next
  case (Cons h hs)
  note one = convert_one_counts[OF Cons.prems, of e cd cls h]
  from Cons.IH[OF one] one show ?case by (simp add: convert_files_Cons)
qed

lemma convert_class_counts:
  assumes "counts_ok del (converted t) (deleted t) (errors t)"
  shows "counts_ok del (converted (fst (convert_class e cd del cls t)))
           (deleted (fst (convert_class e cd del cls t)))
           (errors (fst (convert_class e cd del cls t)))"
proof (cases "map_of (t_fs t) cls")
  case None
  with assms show ?thesis by (simp add: convert_class_def)
next
  case (Some d)
  show ?thesis
  proof (cases "heic_files e d = []")
    case True
    with Some assms show ?thesis by (simp add: convert_class_def)
  next
    case False
    let ?init = "\<lparr>c_dir = d, next_num = start_num e cls d, total_converted = converted t,
                  total_deleted = deleted t, total_errors = errors t, c_escaped = None\<rparr>"
    have "counts_ok del (total_converted ?init) (total_deleted ?init) (total_errors ?init)"
      using assms by simp
    from convert_files_counts[OF this, of e cd cls "heic_files e d"] Some False
    show ?thesis by (simp add: convert_class_def case_prod_beta)
  qed
qed

lemma convert_classes_counts:
  assumes "counts_ok del (converted t) (deleted t) (errors t)"
  shows "counts_ok del (converted (fst (convert_classes e cd del cs t)))
           (deleted (fst (convert_classes e cd del cs t)))
           (errors (fst (convert_classes e cd del cs t)))"
  using assms
proof (induction cs arbitrary: t)
  case Nil
  then show ?case by simp
next
  case (Cons c cs)
  note one = convert_class_counts[OF Cons.prems, of e cd c]
  from Cons.IH[OF one] one show ?case by (simp add: convert_classes_Cons)
qed

text \<open>
  Claim C9. For every environment, codec, file system and value of \<open>delete_originals\<close>, the
  three numbers returned are non-negative, deleted is at most converted, and deleted is 0
  when \<open>delete_originals\<close> is false.
\<close>

theorem returned_counts:
  "0 \<le> converted (fst (convert_and_rename_heic_to_jpg e cd fs del)) \<and>
   0 \<le> deleted (fst (convert_and_rename_heic_to_jpg e cd fs del)) \<and>
   0 \<le> errors (fst (convert_and_rename_heic_to_jpg e cd fs del)) \<and>
   deleted (fst (convert_and_rename_heic_to_jpg e cd fs del)) \<le>
     converted (fst (convert_and_rename_heic_to_jpg e cd fs del)) \<and>
   (\<not> del \<longrightarrow> deleted (fst (convert_and_rename_heic_to_jpg e cd fs del)) = 0)"
proof -
  let ?t0 = "\<lparr>t_fs = fs, converted = 0, deleted = 0, errors = 0, escaped = None\<rparr>"
  have "counts_ok del (converted ?t0) (deleted ?t0) (errors ?t0)"
    by (simp add: counts_ok_def)
  from convert_classes_counts[OF this, of e cd class_folders]
  have "counts_ok del
          (converted (fst (convert_and_rename_heic_to_jpg e cd fs del)))
          (deleted (fst (convert_and_rename_heic_to_jpg e cd fs del)))
          (errors (fst (convert_and_rename_heic_to_jpg e cd fs del)))"
    by (simp add: convert_and_rename_heic_to_jpg_def case_prod_beta)
  then show ?thesis by (auto simp: counts_ok_def)
qed

theorem returned_counts_witness:
  "\<not> False \<and>
   deleted (fst (convert_and_rename_heic_to_jpg posix_env demo_codec
       [(''Good'', [(''a.HEIC'', ''H1''), (''b.heic'', ''x'')])] False)) = 0 \<and>
   converted (fst (convert_and_rename_heic_to_jpg posix_env demo_codec
       [(''Good'', [(''a.HEIC'', ''H1''), (''b.heic'', ''x'')])] False)) = 1 \<and>
   errors (fst (convert_and_rename_heic_to_jpg posix_env demo_codec
       [(''Good'', [(''a.HEIC'', ''H1''), (''b.heic'', ''x'')])] False)) = 1"
proof -
  have "converted (fst (convert_and_rename_heic_to_jpg posix_env demo_codec
       [(''Good'', [(''a.HEIC'', ''H1''), (''b.heic'', ''x'')])] False)) = 1 \<and>
   errors (fst (convert_and_rename_heic_to_jpg posix_env demo_codec
       [(''Good'', [(''a.HEIC'', ''H1''), (''b.heic'', ''x'')])] False)) = 1"
    by code_simp
  then show ?thesis
    using returned_counts [of posix_env demo_codec
        "[(''Good'', [(''a.HEIC'', ''H1''), (''b.heic'', ''x'')])]" False]
    by simp
qed

subsection \<open>Exceptions that leave the convert pass\<close>

text \<open>When the output stream encodes every file name, no exception leaves the pass: every
  failure of a turn is caught, and the summary is printed.\<close>

lemma convert_one_no_escape:
  "printable e h \<Longrightarrow> c_escaped (fst (convert_one e cd cls del h st)) = c_escaped st"
  by (auto simp: convert_one_def convert_body_def Let_def split: option.splits sum.splits)

lemma convert_files_no_escape:
  assumes "\<forall>h. printable e h" and "c_escaped st = None"
  shows "c_escaped (fst (convert_files e cd cls del hs st)) = None"
  using assms(2)
proof (induction hs arbitrary: st)
  case Nil
  then show ?case by simp
next
  case (Cons h hs)
  have "c_escaped (fst (convert_one e cd cls del h st)) = None"
    using convert_one_no_escape[of e h cd cls del st] assms(1) Cons.prems by simp
  from Cons.IH[OF this] this show ?case by (simp add: convert_files_Cons)
qed

lemma convert_class_no_escape:
  assumes "\<forall>h. printable e h" and "escaped t = None"
  shows "escaped (fst (convert_class e cd del cls t)) = None"
  using assms(2)
  by (simp add: convert_class_def case_prod_beta convert_files_no_escape[OF assms(1)]
      split: option.splits)

lemma convert_classes_no_escape:
  assumes "\<forall>h. printable e h" and "escaped t = None"
  shows "escaped (fst (convert_classes e cd del cs t)) = None"
  using assms(2)
proof (induction cs arbitrary: t)
  case Nil
  then show ?case by simp
next
  case (Cons c cs)
  have "escaped (fst (convert_class e cd del c t)) = None"
    using convert_class_no_escape[OF assms(1) Cons.prems] .
  from Cons.IH[OF this] this show ?case by (simp add: convert_classes_Cons)
qed

lemma printable_names_no_escape:
  assumes "\<forall>h. printable e h"
  shows "escaped (fst (convert_and_rename_heic_to_jpg e cd fs del)) = None \<and>
         last (snd (convert_and_rename_heic_to_jpg e cd fs del)) =
           Summary (converted (fst (convert_and_rename_heic_to_jpg e cd fs del)))
                   (deleted (fst (convert_and_rename_heic_to_jpg e cd fs del)))
                   (errors (fst (convert_and_rename_heic_to_jpg e cd fs del)))"
  using convert_classes_no_escape[OF assms, of
      "\<lparr>t_fs = fs, converted = 0, deleted = 0, errors = 0, escaped = None\<rparr>" cd del class_folders]
  by (simp add: convert_and_rename_heic_to_jpg_def case_prod_beta)

text \<open>
  Claim C4 fails on the code. The folder \<open>Good\<close> holds \<open>a.HEIC\<close>, which does not decode, a
  HEIC file whose name holds the byte \<open>0xFF\<close>, and \<open>c.HEIC\<close>; the output stream is UTF-8. The
  failure of \<open>a.HEIC\<close> is caught and counted. At the second file the message of the \<open>try\<close>
  block raises, the handler catches it, and the handler's own message raises again: this
  exception leaves the function. No error is counted for the file, \<open>c.HEIC\<close> and the folder
  \<open>Bad\<close> are never reached, and no summary is printed.
\<close>

theorem unprintable_name_escapes:
  "fst (convert_and_rename_heic_to_jpg utf8_env demo_codec demo_unprintable True) =
     \<lparr>t_fs = demo_unprintable, converted = 0, deleted = 0, errors = 1,
      escaped = Some UnicodeEncodeError\<rparr> \<and>
   snd (convert_and_rename_heic_to_jpg utf8_env demo_codec demo_unprintable True) =
     [FsDirExists ''Good'' True, ProcessingFolder ''Good'', FoundHeic 3,
      Converting ''a.HEIC'' ''good1.jpg'', FsOpen ''a.HEIC'', ErrorConverting ''a.HEIC'']"
  by code_simp

subsection \<open>The end-to-end scenario\<close>

text \<open>Under the POSIX flavour the scenario comes out as the specification has it.\<close>

lemma end_to_end_posix:
  "fst (convert_and_rename_heic_to_jpg posix_env demo_codec demo_scenario True) =
     \<lparr>t_fs = [(''Good'', [(''good1.jpg'', ''old''), (''good2.jpg'', ''JHraw'')]),
              (''Bad'', []), (''Ugly'', [])],
      converted = 1, deleted = 1, errors = 0, escaped = None\<rparr> \<and>
   fst (rename_jpg_files posix_env
         (t_fs (fst (convert_and_rename_heic_to_jpg posix_env demo_codec demo_scenario True)))) =
     [(''Good'', [(''good1.jpg'', ''old''), (''good2.jpg'', ''JHraw'')]),
      (''Bad'', []), (''Ugly'', [])]"
  by code_simp

text \<open>
  Claim C1 fails on the code under the Windows flavour of \<open>pathlib\<close>. The folder \<open>Good\<close> holds
  \<open>IMG_001.HEIC\<close> and \<open>good1.jpg\<close>, and the image decodes and encodes. Both patterns of line
  121 match \<open>IMG_001.HEIC\<close>, so the file is listed twice: the first turn converts and deletes
  it, the second turn finds no file to open and counts an error. The convert pass returns
  converted = 1, deleted = 1, errors = 1; the folder ends with \<open>good1.jpg\<close> and \<open>good2.jpg\<close>.
\<close>

theorem end_to_end_windows:
  "heic_files windows_env [(''IMG_001.HEIC'', ''Hraw''), (''good1.jpg'', ''old'')] =
     [''IMG_001.HEIC'', ''IMG_001.HEIC''] \<and>
   fst (convert_and_rename_heic_to_jpg windows_env demo_codec demo_scenario True) =
     \<lparr>t_fs = [(''Good'', [(''good1.jpg'', ''old''), (''good2.jpg'', ''JHraw'')]),
              (''Bad'', []), (''Ugly'', [])],
      converted = 1, deleted = 1, errors = 1, escaped = None\<rparr> \<and>
   fst (rename_jpg_files windows_env
         (t_fs (fst (convert_and_rename_heic_to_jpg windows_env demo_codec demo_scenario True)))) =
     [(''Good'', [(''good1.jpg'', ''old''), (''good2.jpg'', ''JHraw'')]),
      (''Bad'', []), (''Ugly'', [])]"
  by code_simp

subsection \<open>Existence checks before renames and deletions\<close>

















subsection \<open>The digits of a canonical name\<close>

lemma is_digit_to_lower_all: "\<forall>c. is_digit (to_lower c) = is_digit c"
  by code_simp

lemma is_digit_to_lower: "is_digit (to_lower c) = is_digit c"
  using is_digit_to_lower_all by blast

lemma length_lower: "length (lower s) = length s"
  by (simp add: lower_def)

lemma takeWhile_digit_lower: "takeWhile is_digit (lower s) = lower (takeWhile is_digit s)"
  by (simp add: lower_def takeWhile_map comp_def is_digit_to_lower)

lemma lower_no_digits:
  assumes "lower s = lower p" and "\<forall>c\<in>set p. \<not> is_digit c"
  shows "\<forall>c\<in>set s. \<not> is_digit c"
proof
  fix c
  assume "c \<in> set s"
  then have "to_lower c \<in> set (lower s)" by (simp add: lower_def)
  with assms(1) have "to_lower c \<in> set (lower p)" by simp
  then obtain c' where "c' \<in> set p" and "to_lower c = to_lower c'"
    by (auto simp: lower_def)
  with assms(2) show "\<not> is_digit c" by (metis is_digit_to_lower)
qed

lemma dropWhile_nondigit_id:
  "takeWhile is_digit s \<noteq> [] \<Longrightarrow> dropWhile (\<lambda>c. \<not> is_digit c) s = s"
  by (cases s) (auto split: if_splits)

text \<open>In a canonical name of a label without digits, the first run of digits is the suffix.\<close>

lemma canonical_first_digits:
  assumes "canonical cls n" and "\<forall>c\<in>set cls. \<not> is_digit c"
  shows "first_digits n = takeWhile is_digit (drop (length cls) n)"
    and "first_digits n \<noteq> []"
proof -
  let ?k = "length cls"
  from assms(1) have pre: "take ?k (lower n) = lower cls"
    and dig: "takeWhile is_digit (drop ?k (lower n)) \<noteq> []"
    by (simp_all add: canonical_def Let_def length_lower)
  from pre have "lower (take ?k n) = lower cls" by (simp add: lower_def take_map)
  from lower_no_digits[OF this assms(2)]
  have nd: "\<forall>c\<in>set (take ?k n). \<not> is_digit c" .
  from dig have "takeWhile is_digit (lower (drop ?k n)) \<noteq> []"
    by (simp add: lower_def drop_map)
  then have "lower (takeWhile is_digit (drop ?k n)) \<noteq> []"
    by (simp add: takeWhile_digit_lower)
  then have d2: "takeWhile is_digit (drop ?k n) \<noteq> []"
    by (auto simp: lower_def)
  have "dropWhile (\<lambda>c. \<not> is_digit c) n =
        dropWhile (\<lambda>c. \<not> is_digit c) (take ?k n @ drop ?k n)" by simp
  also have "\<dots> = dropWhile (\<lambda>c. \<not> is_digit c) (drop ?k n)"
    using nd by (intro dropWhile_append2) blast
  also have "\<dots> = drop ?k n" using d2 by (rule dropWhile_nondigit_id)
  finally show "first_digits n = takeWhile is_digit (drop ?k n)"
    by (simp add: first_digits_def)
  with d2 show "first_digits n \<noteq> []" by simp
qed

lemma max_list_Max: "xs \<noteq> [] \<Longrightarrow> max_list xs = Max (set xs)"
proof (cases xs)
  case Nil
  assume "xs \<noteq> []"
  with Nil show ?thesis by simp
next
  case (Cons a l)
  show ?thesis using Max.set_eq_fold[of a l] by (simp only: Cons max_list.simps)
qed

subsection \<open>The starting sequence number and the files found\<close>

text \<open>The rename pass starts one past the largest suffix of the canonical names, or at 1,
  as the specification has it.\<close>

lemma rename_start_spec:
  assumes "\<forall>c\<in>set cls. \<not> is_digit c"
  shows "scan_max_num e cls d + 1 = spec_next_suffix cls (all_jpgs e d)"
proof -
  let ?can = "filter (canonical cls) (all_jpgs e d)"
  have m: "map fst (already_renamed e cls d) = map (canonical_suffix cls) ?can"
    using canonical_first_digits(1)[OF _ assms]
    by (simp add: already_renamed_def canonical_suffix_def comp_def)
  show ?thesis
  proof (cases "?can = []")
    case True
    then show ?thesis
      by (simp add: scan_max_num_def already_renamed_def spec_next_suffix_def)
  next
    case False
    then have "already_renamed e cls d \<noteq> []" by (simp add: already_renamed_def)
    moreover have "map (canonical_suffix cls) ?can \<noteq> []" using False by simp
    ultimately show ?thesis
      using m by (simp add: scan_max_num_def spec_next_suffix_def Let_def max_list_Max)
  qed
qed

text \<open>
  Claim C2 fails on the code in the convert pass. The folder \<open>Good\<close> holds \<open>a.HEIC\<close> and
  \<open>goodbye7.jpg\<close>; no name is canonical, so the next suffix is 1. The glob of line 130 matches
  \<open>goodbye7.jpg\<close> and line 132 reads 7 from it: the convert pass writes \<open>good8.jpg\<close>. The
  rename pass, on the folder that holds \<open>goodbye7.jpg\<close> alone, renames it to \<open>good1.jpg\<close>.
\<close>

theorem convert_start_loose_glob:
  "filter (canonical ''Good'') (names demo_loose) = [] \<and>
   spec_next_suffix ''Good'' (names demo_loose) = 1 \<and>
   start_num posix_env ''Good'' demo_loose = 8 \<and>
   fst (convert_and_rename_heic_to_jpg posix_env demo_codec [(''Good'', demo_loose)] True) =
     \<lparr>t_fs = [(''Good'', [(''goodbye7.jpg'', ''x''), (''good8.jpg'', ''JH1'')])],
      converted = 1, deleted = 1, errors = 0, escaped = None\<rparr> \<and>
   fst (rename_jpg_files posix_env [(''Good'', [(''goodbye7.jpg'', ''x'')])]) =
     [(''Good'', [(''good1.jpg'', ''x'')])]"
  by code_simp

text \<open>
  Claim C6 fails on the code. Under the POSIX flavour the two patterns of line 121 match
  \<open>.HEIC\<close> and \<open>.heic\<close> only: in a folder that holds \<open>IMG_1.Heic\<close> alone, a HEIC file by its
  extension whatever the case, with no canonical file and an image that decodes and encodes,
  the convert pass finds nothing, writes no \<open>good1.jpg\<close> and leaves the HEIC file. And in a
  folder with \<open>b.heic\<close> and \<open>goodies2024.jpg\<close>, which holds no canonical file either, it
  writes \<open>good2025.jpg\<close>.
\<close>

theorem convert_misses_and_misnumbers:
  "filter has_heic_extension (names demo_mixed_case) = [''IMG_1.Heic''] \<and>
   filter (canonical ''Good'') (names demo_mixed_case) = [] \<and>
   transcode demo_codec ''H1'' = Some ''JH1'' \<and>
   fst (convert_and_rename_heic_to_jpg posix_env demo_codec [(''Good'', demo_mixed_case)] True) =
     \<lparr>t_fs = [(''Good'', demo_mixed_case)],
      converted = 0, deleted = 0, errors = 0, escaped = None\<rparr> \<and>
   filter has_heic_extension (names demo_loose_lower) = [''b.heic''] \<and>
   filter (canonical ''Good'') (names demo_loose_lower) = [] \<and>
   fst (convert_and_rename_heic_to_jpg posix_env demo_codec [(''Good'', demo_loose_lower)] True) =
     \<lparr>t_fs = [(''Good'', [(''goodies2024.jpg'', ''y''), (''good2025.jpg'', ''JH2'')])],
      converted = 1, deleted = 1, errors = 0, escaped = None\<rparr>"
  by code_simp

subsection \<open>Running the convert pass twice\<close>



























subsection \<open>Running the rename pass twice\<close>

declare rename_classes.simps(2) [simp del]
















subsection \<open>Running the convert pass twice with the originals kept\<close>
















subsection \<open>Running a pass twice\<close>




end
